theory Spec2Isabelle
  imports Main "HOL-Library.Word" "HOL-Library.Multiset"
begin

section \<open>JavaScript strings\<close>

text \<open>
  A JavaScript string is a sequence of 16-bit code units. \<open>js\<close> embeds an ASCII
  literal. \<open>startsWith\<close> is \<^verbatim>\<open>String.prototype.startsWith\<close> at position 0.
\<close>

type_synonym jsstring = "16 word list"

definition js :: "string \<Rightarrow> jsstring" where
  "js s = map of_char s"

definition startsWith :: "jsstring \<Rightarrow> jsstring \<Rightarrow> bool" where
  "startsWith s p = (take (length p) s = p)"

text \<open>
  The decimal rendering of an integral number inside a template literal
  (\<^verbatim>\<open>`${maxRedirects}`\<close>).
\<close>

fun digits :: "nat \<Rightarrow> jsstring" where
  "digits n = (if n < 10 then [of_nat (48 + n)] else digits (n div 10) @ [of_nat (48 + n mod 10)])"

declare digits.simps [simp del]

definition number_toString :: "int \<Rightarrow> jsstring" where
  "number_toString i = (if i < 0 then js ''-'' @ digits (nat (- i)) else digits (nat i))"

section \<open>The runtime: URL objects, thrown values, the network\<close>

text \<open>
  The \<^verbatim>\<open>URL\<close> class and the schema validator belong to the runtime, not to the
  repository; they are a parameter of the model. \<open>url_new s\<close> is \<^verbatim>\<open>new URL(s)\<close> and
  \<open>url_new_base l b\<close> is \<^verbatim>\<open>new URL(l, b)\<close>; \<open>Inl m\<close> is the \<^verbatim>\<open>TypeError\<close> with message
  \<open>m\<close> that the constructor throws. \<open>zod_url s\<close> is the verdict of
  \<^verbatim>\<open>z.string().url()\<close> on \<open>s\<close>.
\<close>

record url_obj =
  protocol :: jsstring
  host :: jsstring
  href :: jsstring

record platform =
  url_new :: "jsstring \<Rightarrow> jsstring + url_obj"
  url_new_base :: "jsstring \<Rightarrow> jsstring \<Rightarrow> jsstring + url_obj"
  zod_url :: "jsstring \<Rightarrow> bool"

text \<open>
  A thrown value is an \<^verbatim>\<open>Error\<close> instance with its message, or something else
  (the \<^verbatim>\<open>instanceof Error\<close> test of the source tells them apart).
\<close>

datatype thrown = Error jsstring | NotError

datatype verb = HEAD | GET

text \<open>
  Of a response the code reads the status and \<^verbatim>\<open>headers.get('location')\<close>
  (\<open>None\<close> is \<^verbatim>\<open>null\<close>).
\<close>

record response =
  status :: int
  location :: "jsstring option"

text \<open>
  The network answers a request in its current state and moves to a new state; an
  answer \<open>Inl e\<close> is a rejected \<^verbatim>\<open>fetch\<close>. The world also keeps the list of requests
  issued so far. Every request of the source carries the same \<^verbatim>\<open>User-Agent\<close> and
  \<^verbatim>\<open>redirect: 'manual'\<close>, so a request is recorded as its method and URL.
\<close>

type_synonym 'w transport = "'w \<Rightarrow> verb \<Rightarrow> jsstring \<Rightarrow> (thrown + response) \<times> 'w"

record 'w world =
  net_state :: 'w
  requests :: "(verb \<times> jsstring) list"

definition fetch :: "'w transport \<Rightarrow> jsstring \<Rightarrow> verb \<Rightarrow> 'w world \<Rightarrow> (thrown + response) \<times> 'w world" where
  "fetch net url m w =
     (case net (net_state w) m url of
        (r, s) \<Rightarrow> (r, \<lparr>net_state = s, requests = requests w @ [(m, url)]\<rparr>))"

section \<open>followRedirects\<close>

text \<open>
  What the code does with a response (lines 27-47 for HEAD, the same text again in
  lines 59-76 for GET): either the loop continues at a new current URL, or the
  function returns the current URL. \<^verbatim>\<open>if (location)\<close> is false for \<^verbatim>\<open>null\<close> and for
  the empty string. A throwing \<^verbatim>\<open>new URL\<close> leaves the block as an exception.
\<close>

datatype action = Continue jsstring | Return jsstring

definition on_response :: "platform \<Rightarrow> jsstring \<Rightarrow> response \<Rightarrow> thrown + action" where
  "on_response plat currentUrl resp =
     (if status resp \<ge> 300 \<and> status resp < 400 then
        (case location resp of
           None \<Rightarrow> Inr (Return currentUrl)
         | Some loc \<Rightarrow>
             if loc = [] then Inr (Return currentUrl)
             else if startsWith loc (js ''/'') then
               (case url_new plat currentUrl of
                  Inl m \<Rightarrow> Inl (Error m)
                | Inr urlObj \<Rightarrow> Inr (Continue (protocol urlObj @ js ''//'' @ host urlObj @ loc)))
             else if startsWith loc (js ''http'') then Inr (Continue loc)
             else
               (case url_new plat currentUrl of
                  Inl m \<Rightarrow> Inl (Error m)
                | Inr urlObj \<Rightarrow>
                    (case url_new_base plat loc (href urlObj) of
                       Inl m \<Rightarrow> Inl (Error m)
                     | Inr target \<Rightarrow> Inr (Continue (href target)))))
      else Inr (Return currentUrl))"

text \<open>
  One request and the handling of its answer: the body of a \<^verbatim>\<open>try\<close> block.
\<close>

definition attempt :: "platform \<Rightarrow> 'w transport \<Rightarrow> verb \<Rightarrow> jsstring \<Rightarrow> 'w world \<Rightarrow> (thrown + action) \<times> 'w world" where
  "attempt plat net m currentUrl w =
     (case fetch net currentUrl m w of
        (Inl e, w') \<Rightarrow> (Inl e, w')
      | (Inr resp, w') \<Rightarrow> (on_response plat currentUrl resp, w'))"

text \<open>
  One iteration of the loop (lines 17-80): the HEAD block; whatever it throws is
  caught and the GET block runs at the same URL; what the GET block throws is the
  \<^verbatim>\<open>secondError\<close>.
\<close>

definition hop :: "platform \<Rightarrow> 'w transport \<Rightarrow> jsstring \<Rightarrow> 'w world \<Rightarrow> (thrown + action) \<times> 'w world" where
  "hop plat net currentUrl w =
     (case attempt plat net HEAD currentUrl w of
        (Inr a, w1) \<Rightarrow> (Inr a, w1)
      | (Inl error, w1) \<Rightarrow> attempt plat net GET currentUrl w1)"

text \<open>
  The two errors the function throws, and their messages (lines 78 and 83).
\<close>

datatype resolve_error = TransportFailure thrown | TooManyRedirects int

definition message :: "resolve_error \<Rightarrow> jsstring" where
  "message err =
     (case err of
        TransportFailure secondError \<Rightarrow>
          js ''Failed to resolve URL: '' @
            (case secondError of Error m \<Rightarrow> m | NotError \<Rightarrow> js ''Unknown error'')
      | TooManyRedirects maxRedirects \<Rightarrow>
          js ''Too many redirects (max '' @ number_toString maxRedirects @ js '')'')"

text \<open>
  The \<^verbatim>\<open>while\<close> loop (lines 16-81) and the \<^verbatim>\<open>throw\<close> after it (line 83), with the
  loop's variables \<open>currentUrl\<close> and \<open>redirectCount\<close> as arguments.
\<close>

function followLoop :: "platform \<Rightarrow> 'w transport \<Rightarrow> int \<Rightarrow> jsstring \<Rightarrow> int \<Rightarrow> 'w world \<Rightarrow> (resolve_error + jsstring) \<times> 'w world" where
  "followLoop plat net maxRedirects currentUrl redirectCount w =
     (if redirectCount < maxRedirects then
        (case hop plat net currentUrl w of
           (Inr (Continue next), w') \<Rightarrow> followLoop plat net maxRedirects next (redirectCount + 1) w'
         | (Inr (Return u), w') \<Rightarrow> (Inr u, w')
         | (Inl secondError, w') \<Rightarrow> (Inl (TransportFailure secondError), w'))
      else (Inl (TooManyRedirects maxRedirects), w))"
  by pat_completeness auto
termination
  by (relation "measure (\<lambda>(plat, net, maxRedirects, currentUrl, redirectCount, w). nat (maxRedirects - redirectCount))") auto

declare followLoop.simps [simp del]

text \<open>
  The function itself (lines 7-84): the scheme check of lines 12-14
  (\<open>ensureProtocol\<close>, after the comment there), then the loop from
  \<open>redirectCount = 0\<close>. The parameter \<open>maxRedirects\<close> defaults to 10.
\<close>

definition ensureProtocol :: "jsstring \<Rightarrow> jsstring" where
  "ensureProtocol url =
     (if \<not> startsWith url (js ''http://'') \<and> \<not> startsWith url (js ''https://'')
      then js ''https://'' @ url else url)"

definition followRedirects :: "platform \<Rightarrow> 'w transport \<Rightarrow> jsstring \<Rightarrow> int \<Rightarrow> 'w world \<Rightarrow> (resolve_error + jsstring) \<times> 'w world" where
  "followRedirects plat net url maxRedirects w =
     (let currentUrl = ensureProtocol url
      in followLoop plat net maxRedirects currentUrl 0 w)"

definition default_maxRedirects :: int where
  "default_maxRedirects = 10"

section \<open>MemStorage\<close>

text \<open>
  A \<^verbatim>\<open>Map\<close> keeps its entries in insertion order: a list of pairs. \<^verbatim>\<open>set\<close> replaces
  the value of a present key where it stands and appends an absent one.
  A \<^verbatim>\<open>Date\<close> is its \<^verbatim>\<open>getTime()\<close>, in milliseconds. Identifiers and times are
  integral numbers far below \<open>2 ^ 53\<close>, where a JavaScript number counts exactly; they
  are integers here.
\<close>

record ResolvedUrl =
  id' :: int
  originalUrl :: jsstring
  resolvedUrl :: jsstring
  timestamp :: int

fun Map_set :: "('k \<times> 'v) list \<Rightarrow> 'k \<Rightarrow> 'v \<Rightarrow> ('k \<times> 'v) list" where
  "Map_set [] k v = [(k, v)]"
| "Map_set ((k', v') # m) k v = (if k' = k then (k, v) # m else (k', v') # Map_set m k v)"

definition Map_values :: "('k \<times> 'v) list \<Rightarrow> 'v list" where
  "Map_values m = map snd m"

text \<open>
  \<^verbatim>\<open>Array.prototype.sort\<close> with a comparator is stable, and the comparator of the source
  is a consistent order, so the result is the stable ordering of the array: each
  element, from the last to the first, is inserted in front of the first element it
  must not follow.
\<close>

fun insert_cmp :: "('a \<Rightarrow> 'a \<Rightarrow> int) \<Rightarrow> 'a \<Rightarrow> 'a list \<Rightarrow> 'a list" where
  "insert_cmp cmp x [] = [x]"
| "insert_cmp cmp x (y # ys) = (if cmp x y \<le> 0 then x # y # ys else y # insert_cmp cmp x ys)"

definition Array_sort :: "('a \<Rightarrow> 'a \<Rightarrow> int) \<Rightarrow> 'a list \<Rightarrow> 'a list" where
  "Array_sort cmp xs = foldr (insert_cmp cmp) xs []"

record MemStorage =
  resolvedUrls :: "(int \<times> ResolvedUrl) list"
  currentId :: int

definition new_MemStorage :: MemStorage where
  "new_MemStorage = \<lparr>resolvedUrls = [], currentId = 1\<rparr>"

text \<open>
  \<open>now\<close> is the time \<^verbatim>\<open>new Date()\<close> reads when the record is made.
\<close>

definition resolveAndStoreUrl :: "MemStorage \<Rightarrow> jsstring \<Rightarrow> jsstring \<Rightarrow> int \<Rightarrow> ResolvedUrl \<times> MemStorage" where
  "resolveAndStoreUrl this original resolved now =
     (let id = currentId this;
          resolvedUrlEntry = \<lparr>id' = id, originalUrl = original, resolvedUrl = resolved, timestamp = now\<rparr>
      in (resolvedUrlEntry,
          \<lparr>resolvedUrls = Map_set (resolvedUrls this) id resolvedUrlEntry, currentId = id + 1\<rparr>))"

definition getAllResolvedUrls :: "MemStorage \<Rightarrow> ResolvedUrl list" where
  "getAllResolvedUrls this =
     Array_sort (\<lambda>a b. timestamp b - timestamp a) (Map_values (resolvedUrls this))"

definition clearAllResolvedUrls :: "MemStorage \<Rightarrow> MemStorage" where
  "clearAllResolvedUrls this = this\<lparr>resolvedUrls := []\<rparr>"

definition checkUrlExists :: "MemStorage \<Rightarrow> jsstring \<Rightarrow> bool" where
  "checkUrlExists this resolved =
     list_ex (\<lambda>url. resolvedUrl url = resolved) (Map_values (resolvedUrls this))"

text \<open>
  The life of one store: a sequence of the two operations that change it, from the
  store the constructor makes. \<open>run\<close> returns the records handed out, in order, and
  the final store.
\<close>

datatype store_op = ResolveAndStore jsstring jsstring int | ClearAll

fun run :: "MemStorage \<Rightarrow> store_op list \<Rightarrow> ResolvedUrl list \<times> MemStorage" where
  "run this [] = ([], this)"
| "run this (ResolveAndStore original resolved now # ops) =
     (case resolveAndStoreUrl this original resolved now of
        (entry, this') \<Rightarrow> (case run this' ops of (entries, final) \<Rightarrow> (entry # entries, final)))"
| "run this (ClearAll # ops) = run (clearAllResolvedUrls this) ops"

section \<open>The routes\<close>

text \<open>
  What a handler sends: \<^verbatim>\<open>res.json(x)\<close> (status 200), \<^verbatim>\<open>res.status(n).json({message})\<close>,
  or the 409 of the resolve route, which also carries the resolved URL.
\<close>

datatype 'a reply = Json 'a | Failure int jsstring | Conflict jsstring jsstring

fun statusCode :: "'a reply \<Rightarrow> int" where
  "statusCode (Json x) = 200"
| "statusCode (Failure n m) = n"
| "statusCode (Conflict m r) = 409"

text \<open>
  \<^verbatim>\<open>POST /api/resolve-url\<close> (lines 88-119). The body is \<open>Some url\<close> when it is an object
  whose \<^verbatim>\<open>url\<close> is a string, \<open>None\<close> otherwise; the schema's \<^verbatim>\<open>parse\<close> throws a
  \<^verbatim>\<open>ZodError\<close> on \<open>None\<close> and on a string the validator rejects (the \<^verbatim>\<open>errors\<close>
  field of that answer is left out). The handler runs from start to end on the
  store \<open>storage\<close>; \<open>followRedirects\<close> is called with its default \<open>maxRedirects\<close>, and
  what it throws is an \<^verbatim>\<open>Error\<close> whose message the 500 answer carries.
\<close>

definition post_resolve_url :: "platform \<Rightarrow> 'w transport \<Rightarrow> int \<Rightarrow> jsstring option \<Rightarrow> MemStorage \<times> 'w world \<Rightarrow> ResolvedUrl reply \<times> MemStorage \<times> 'w world" where
  "post_resolve_url plat net now body sw =
     (case sw of (storage, w) \<Rightarrow>
        (case body of
           None \<Rightarrow> (Failure 400 (js ''Invalid URL format''), storage, w)
         | Some url \<Rightarrow>
             if \<not> zod_url plat url then (Failure 400 (js ''Invalid URL format''), storage, w)
             else
               (case followRedirects plat net url default_maxRedirects w of
                  (Inl err, w') \<Rightarrow> (Failure 500 (message err), storage, w')
                | (Inr resolved, w') \<Rightarrow>
                    if checkUrlExists storage resolved
                    then (Conflict (js ''URL already exists in the list'') resolved, storage, w')
                    else
                      (case resolveAndStoreUrl storage url resolved now of
                         (result, storage') \<Rightarrow> (Json result, storage', w')))))"

text \<open>
  \<^verbatim>\<open>String.prototype.trim\<close> removes white space and line terminators from both ends:
  these code units.
\<close>

definition is_space :: "16 word \<Rightarrow> bool" where
  "is_space c \<longleftrightarrow>
     c = 0x9 \<or> c = 0xA \<or> c = 0xB \<or> c = 0xC \<or> c = 0xD \<or> c = 0x20 \<or> c = 0xA0 \<or>
     c = 0x1680 \<or> (0x2000 \<le> c \<and> c \<le> 0x200A) \<or> c = 0x2028 \<or> c = 0x2029 \<or>
     c = 0x202F \<or> c = 0x205F \<or> c = 0x3000 \<or> c = 0xFEFF"

definition trim :: "jsstring \<Rightarrow> jsstring" where
  "trim s = rev (dropWhile is_space (rev (dropWhile is_space s)))"

text \<open>
  \<^verbatim>\<open>s.split('\n')\<close>: the pieces between line feeds; the empty string gives one empty
  piece.
\<close>

fun split_nl :: "jsstring \<Rightarrow> jsstring list" where
  "split_nl [] = [[]]"
| "split_nl (c # cs) =
     (if c = 0xA then [] # split_nl cs
      else (case split_nl cs of [] \<Rightarrow> [[c]] | l # ls \<Rightarrow> (c # l) # ls))"

text \<open>
  \<^verbatim>\<open>Array.from(new Set(xs))\<close>: the set is filled from left to right, an element already
  in it is not added again, and its elements are read in insertion order.
\<close>

definition Set_add :: "'a list \<Rightarrow> 'a \<Rightarrow> 'a list" where
  "Set_add s x = (if x \<in> set s then s else s @ [x])"

definition Array_from_Set :: "'a list \<Rightarrow> 'a list" where
  "Array_from_Set xs = foldl Set_add [] xs"

record FileAnalysis =
  totalLines :: int
  uniqueLines :: int
  duplicateLines :: int
  urls :: "jsstring list"

text \<open>
  \<^verbatim>\<open>POST /api/analyze-file\<close> (lines 146-167). \<open>content\<close> is \<open>Some s\<close> when the body's
  \<^verbatim>\<open>content\<close> is the string \<open>s\<close>, \<open>None\<close> when it is absent or not a string;
  \<^verbatim>\<open>!content\<close> holds for the empty string.
\<close>

definition post_analyze_file :: "jsstring option \<Rightarrow> FileAnalysis reply" where
  "post_analyze_file content =
     (case content of
        None \<Rightarrow> Failure 400 (js ''File content is required'')
      | Some c \<Rightarrow>
          if c = [] then Failure 400 (js ''File content is required'')
          else
            (let lines = filter (\<lambda>line. length line > 0) (map trim (split_nl c));
                 uniq = Array_from_Set lines
             in Json \<lparr>totalLines = int (length lines),
                      uniqueLines = int (length uniq),
                      duplicateLines = int (length lines) - int (length uniq),
                      urls = uniq\<rparr>))"

text \<open>
  \<^verbatim>\<open>POST /api/merge-files\<close> (lines 170-196). \<open>files\<close> is \<open>Some fs\<close> when the body's
  \<^verbatim>\<open>files\<close> is an array, whose elements are strings (as \<^verbatim>\<open>fileMergeSchema\<close> declares
  them), \<open>None\<close> otherwise. The \<^verbatim>\<open>for\<close> loop pushes each file's lines onto \<open>allLines\<close>.
\<close>

definition post_merge_files :: "jsstring list option \<Rightarrow> FileAnalysis reply" where
  "post_merge_files files =
     (case files of
        None \<Rightarrow> Failure 400 (js ''Files array is required'')
      | Some fs \<Rightarrow>
          (let allLines =
                 foldl (\<lambda>allLines fileContent.
                          allLines @ filter (\<lambda>line. length line > 0) (map trim (split_nl fileContent)))
                       [] fs;
               uniq = Array_from_Set allLines
           in Json \<lparr>totalLines = int (length allLines),
                    uniqueLines = int (length uniq),
                    duplicateLines = int (length allLines) - int (length uniq),
                    urls = uniq\<rparr>))"

section \<open>Notions the statements use\<close>


text \<open>
  \<open>redirect_chain plat net n u w\<close> follows \<open>n\<close> consecutive redirects from the URL \<open>u\<close>
  in the world \<open>w\<close>, one loop iteration each, and gives the URL and the world
  reached; it is \<open>None\<close> when one of the \<open>n\<close> iterations does not redirect.
\<close>

fun redirect_chain :: "platform \<Rightarrow> 'w transport \<Rightarrow> nat \<Rightarrow> jsstring \<Rightarrow> 'w world \<Rightarrow> (jsstring \<times> 'w world) option" where
  "redirect_chain plat net 0 u w = Some (u, w)"
| "redirect_chain plat net (Suc n) u w =
     (case hop plat net u w of
        (Inr (Continue next), w') \<Rightarrow> redirect_chain plat net n next w'
      | (Inr (Return r), w') \<Rightarrow> None
      | (Inl e, w') \<Rightarrow> None)"

text \<open>
  The HEAD requests among a list of requests: every loop iteration starts with
  exactly one HEAD request.
\<close>

definition heads :: "(verb \<times> jsstring) list \<Rightarrow> (verb \<times> jsstring) list" where
  "heads rs = filter (\<lambda>r. fst r = HEAD) rs"

text \<open>
  An absolute URL starts with a scheme: a letter, then letters, digits, \<open>+\<close>, \<open>-\<close>
  or \<open>.\<close>, then a colon.
\<close>

definition is_alpha :: "16 word \<Rightarrow> bool" where
  "is_alpha c \<longleftrightarrow> (0x41 \<le> c \<and> c \<le> 0x5A) \<or> (0x61 \<le> c \<and> c \<le> 0x7A)"

definition is_scheme_char :: "16 word \<Rightarrow> bool" where
  "is_scheme_char c \<longleftrightarrow>
     is_alpha c \<or> (0x30 \<le> c \<and> c \<le> 0x39) \<or> c = 0x2B \<or> c = 0x2D \<or> c = 0x2E"

definition has_scheme :: "jsstring \<Rightarrow> bool" where
  "has_scheme s =
     (case s of
        [] \<Rightarrow> False
      | c # cs \<Rightarrow>
          is_alpha c \<and> (case dropWhile is_scheme_char cs of [] \<Rightarrow> False | d # ds \<Rightarrow> d = 0x3A))"

text \<open>
  ASCII lower case, to speak of a scheme prefix written with capital letters.
\<close>

definition lower :: "16 word \<Rightarrow> 16 word" where
  "lower c = (if 0x41 \<le> c \<and> c \<le> 0x5A then c + 0x20 else c)"

definition capitalised_scheme :: "jsstring \<Rightarrow> bool" where
  "capitalised_scheme url \<longleftrightarrow>
     (map lower (take 7 url) = js ''http://'' \<and> take 7 url \<noteq> js ''http://'') \<or>
     (map lower (take 8 url) = js ''https://'' \<and> take 8 url \<noteq> js ''https://'')"

text \<open>
  The line-set transform in the words of the specification: each blob is split on
  line breaks, every line is trimmed, empty lines are dropped; the lines of all blobs
  are counted, and the unique lines are listed in the order of their first
  occurrence.
\<close>

definition blob_lines :: "jsstring \<Rightarrow> jsstring list" where
  "blob_lines blob = filter (\<lambda>line. line \<noteq> []) (map trim (split_nl blob))"

definition first_occurrences :: "'a list \<Rightarrow> 'a list" where
  "first_occurrences xs = rev (remdups (rev xs))"

definition line_set :: "jsstring list \<Rightarrow> FileAnalysis" where
  "line_set blobs =
     (let ls = concat (map blob_lines blobs); us = first_occurrences ls
      in \<lparr>totalLines = int (length ls), uniqueLines = int (length us),
          duplicateLines = int (length ls) - int (length us), urls = us\<rparr>)"

section \<open>A small runtime and two networks for the examples\<close>

text \<open>
  \<open>simple_runtime\<close> stands for the runtime's \<^verbatim>\<open>URL\<close> class on the URLs of the examples:
  \<^verbatim>\<open>http://\<close> or \<^verbatim>\<open>https://\<close>, a plain lower-case host, and a path without dot
  segments, query or fragment; a relative reference is a plain path that starts with
  neither \<open>/\<close> nor a scheme. There the values are those of the URL Standard.
\<close>

definition simple_url :: "jsstring \<Rightarrow> jsstring \<Rightarrow> jsstring + url_obj" where
  "simple_url proto rest =
     (let h = takeWhile (\<lambda>c. c \<noteq> 0x2F) rest; p = dropWhile (\<lambda>c. c \<noteq> 0x2F) rest
      in if h = [] then Inl (js ''Invalid URL'')
         else Inr \<lparr>protocol = proto, host = h,
                   href = proto @ js ''//'' @ h @ (if p = [] then js ''/'' else p)\<rparr>)"

definition simple_url_new :: "jsstring \<Rightarrow> jsstring + url_obj" where
  "simple_url_new s =
     (if startsWith s (js ''https://'') then simple_url (js ''https:'') (drop 8 s)
      else if startsWith s (js ''http://'') then simple_url (js ''http:'') (drop 7 s)
      else Inl (js ''Invalid URL''))"

definition simple_url_new_base :: "jsstring \<Rightarrow> jsstring \<Rightarrow> jsstring + url_obj" where
  "simple_url_new_base l b =
     (case simple_url_new l of
        Inr u \<Rightarrow> Inr u
      | Inl m \<Rightarrow>
          (case simple_url_new b of
             Inl m' \<Rightarrow> Inl m'
           | Inr base \<Rightarrow>
               (let origin = protocol base @ js ''//'' @ host base;
                    path = drop (length origin) (href base);
                    dir = rev (dropWhile (\<lambda>c. c \<noteq> 0x2F) (rev path))
                in simple_url_new (origin @ dir @ l))))"

definition simple_runtime :: platform where
  "simple_runtime =
     \<lparr>url_new = simple_url_new, url_new_base = simple_url_new_base,
      zod_url = (\<lambda>s. case simple_url_new s of Inl m \<Rightarrow> False | Inr u \<Rightarrow> True)\<rparr>"

text \<open>
  A network that answers from a table and rejects every other request, and a
  network where every URL redirects to itself.
\<close>

definition table_net :: "((verb \<times> jsstring) \<times> response) list \<Rightarrow> unit transport" where
  "table_net tbl s m url =
     (case map_of tbl (m, url) of
        Some r \<Rightarrow> (Inr r, s)
      | None \<Rightarrow> (Inl (Error (js ''fetch failed'')), s))"

definition loop_net :: "unit transport" where
  "loop_net s m url = (Inr \<lparr>status = 301, location = Some url\<rparr>, s)"

definition world0 :: "unit world" where
  "world0 = \<lparr>net_state = (), requests = []\<rparr>"

text \<open>
  The networks of the examples: a chain of two redirects that ends in a 200, and a
  server that rejects HEAD and answers GET.
\<close>

definition chain_table :: "((verb \<times> jsstring) \<times> response) list" where
  "chain_table =
     [((HEAD, js ''https://host/a/old''), \<lparr>status = 302, location = Some (js ''other/path'')\<rparr>),
      ((HEAD, js ''https://host/a/other/path''), \<lparr>status = 301, location = Some (js ''/path'')\<rparr>),
      ((HEAD, js ''https://host/path''), \<lparr>status = 200, location = None\<rparr>)]"


text \<open>
  \<^verbatim>\<open>fetch\<close> rejects a URL it cannot parse before anything is sent; \<open>parsing_net\<close> is a
  table network with that check in front. In \<open>relative_http_table\<close> the first URL
  redirects to the relative path \<^verbatim>\<open>http-docs/page\<close>, and the URL that path denotes
  there answers 200.
\<close>

definition parsing_net :: "((verb \<times> jsstring) \<times> response) list \<Rightarrow> unit transport" where
  "parsing_net tbl s m url =
     (case url_new simple_runtime url of
        Inl e \<Rightarrow> (Inl (Error (js ''Failed to parse URL from '' @ url)), s)
      | Inr u \<Rightarrow> table_net tbl s m url)"

definition relative_http_table :: "((verb \<times> jsstring) \<times> response) list" where
  "relative_http_table =
     [((HEAD, js ''https://host/a/old''), \<lparr>status = 302, location = Some (js ''http-docs/page'')\<rparr>),
      ((HEAD, js ''https://host/a/http-docs/page''), \<lparr>status = 200, location = None\<rparr>)]"

text \<open>
  The order of the listing: more recent first, and on equal timestamps the lower
  identifier first.
\<close>

definition recency :: "ResolvedUrl \<Rightarrow> ResolvedUrl \<Rightarrow> bool" where
  "recency a b \<longleftrightarrow> timestamp b \<le> timestamp a \<and> (timestamp a = timestamp b \<longrightarrow> id' a < id' b)"

text \<open>
  The shape of a store that a sequence of operations can produce: the keys are the
  records' identifiers, in increasing order, all below the counter.
\<close>

definition store_inv :: "MemStorage \<Rightarrow> bool" where
  "store_inv this \<longleftrightarrow>
     sorted_wrt (<) (map fst (resolvedUrls this)) \<and>
     list_all (\<lambda>kv. fst kv = id' (snd kv) \<and> fst kv < currentId this) (resolvedUrls this)"

section \<open>The redirect loop\<close>

lemma fetch_requests:
  "fetch net u m w = (r, w') \<Longrightarrow> requests w' = requests w @ [(m, u)]"
  by (auto simp: fetch_def split: prod.splits)

lemma attempt_requests:
  "attempt plat net m u w = (r, w') \<Longrightarrow> requests w' = requests w @ [(m, u)]"
  by (auto simp: attempt_def split: prod.splits sum.splits dest: fetch_requests)

lemma hop_requests:
  "hop plat net u w = (r, w') \<Longrightarrow>
     requests w' = requests w @ [(HEAD, u)] \<or> requests w' = requests w @ [(HEAD, u), (GET, u)]"
  by (auto simp: hop_def split: prod.splits sum.splits dest!: attempt_requests)


lemma followLoop_requests:
  "\<exists>new. requests (snd (followLoop plat net mx cur cnt w)) = requests w @ new \<and>
         length (heads new) \<le> nat (mx - cnt) \<and> length new \<le> 2 * nat (mx - cnt)"
proof (induction plat net mx cur cnt w rule: followLoop.induct)
  case (1 plat net mx cur cnt w)
  show ?case
  proof (cases "cnt < mx")
    case False
    then show ?thesis by (simp add: followLoop.simps heads_def)
  next
    case True
    obtain r w' where h: "hop plat net cur w = (r, w')" by (cases "hop plat net cur w")
    from hop_requests[OF h] obtain step where
      step: "requests w' = requests w @ step" "length (heads step) = 1" "length step \<le> 2"
      by (auto simp: heads_def)
    show ?thesis
    proof (cases r)
      case (Inl e)
      with True h step show ?thesis
        by (auto simp: followLoop.simps intro!: exI[of _ step])
    next
      case (Inr a)
      show ?thesis
      proof (cases a)
        case (Return x)
        with True h step Inr show ?thesis
          by (auto simp: followLoop.simps intro!: exI[of _ step])
      next
        case (Continue nxt)
        from "1.IH"[OF True h[symmetric] Inr Continue] obtain new where
          new: "requests (snd (followLoop plat net mx nxt (cnt + 1) w')) = requests w' @ new"
            "length (heads new) \<le> nat (mx - (cnt + 1))" "length new \<le> 2 * nat (mx - (cnt + 1))"
          by auto
        have eq: "followLoop plat net mx cur cnt w = followLoop plat net mx nxt (cnt + 1) w'"
          using True h Inr Continue by (subst followLoop.simps) simp
        show ?thesis
          using new step True unfolding eq
          by (intro exI[of _ "step @ new"]) (auto simp: heads_def)
      qed
    qed
  qed
qed

lemma redirect_chain_followLoop:
  "redirect_chain plat net n u w = Some (u', w') \<Longrightarrow> cnt + int n \<le> mx \<Longrightarrow>
     followLoop plat net mx u cnt w = followLoop plat net mx u' (cnt + int n) w'"
proof (induction n arbitrary: u w cnt)
  case 0
  then show ?case by simp
next
  case (Suc n)
  from Suc.prems(1) obtain nxt w1 where
    h: "hop plat net u w = (Inr (Continue nxt), w1)" and
    c: "redirect_chain plat net n nxt w1 = Some (u', w')"
    by (auto split: prod.splits sum.splits action.splits)
  have "followLoop plat net mx u cnt w = followLoop plat net mx nxt (cnt + 1) w1"
    using Suc.prems(2) h by (subst followLoop.simps) simp
  also have "\<dots> = followLoop plat net mx u' (cnt + 1 + int n) w'"
    using Suc.IH[OF c, of "cnt + 1"] Suc.prems(2) by simp
  finally show ?case by (simp add: add.assoc)
qed


lemma attempt_rejected:
  "fetch net u m w = (Inl e, w') \<Longrightarrow> attempt plat net m u w = (Inl e, w')"
  by (simp add: attempt_def)

lemma followLoop_Return:
  "cnt < mx \<Longrightarrow> hop plat net u w = (Inr (Return r), w') \<Longrightarrow>
     followLoop plat net mx u cnt w = (Inr r, w')"
  by (subst followLoop.simps) simp

lemma followLoop_Continue:
  "cnt < mx \<Longrightarrow> hop plat net u w = (Inr (Continue nxt), w') \<Longrightarrow>
     followLoop plat net mx u cnt w = followLoop plat net mx nxt (cnt + 1) w'"
  by (subst followLoop.simps) simp

lemma followLoop_thrown:
  "cnt < mx \<Longrightarrow> hop plat net u w = (Inl e, w') \<Longrightarrow>
     followLoop plat net mx u cnt w = (Inl (TransportFailure e), w')"
  by (subst followLoop.simps) simp


lemma followRedirects_chain:
  "redirect_chain plat net n (ensureProtocol url) w = Some (u, w1) \<Longrightarrow> int n \<le> mx \<Longrightarrow>
     followRedirects plat net url mx w = followLoop plat net mx u (int n) w1"
  using redirect_chain_followLoop[of plat net n "ensureProtocol url" w u w1 0 mx]
  by (simp add: followRedirects_def)



section \<open>The scheme check\<close>

lemma followRedirects_first_request:
  "0 < mx \<Longrightarrow>
     \<exists>rest. requests (snd (followRedirects plat net url mx w)) =
              requests w @ (HEAD, ensureProtocol url) # rest"
proof -
  assume mx: "0 < mx"
  let ?u = "ensureProtocol url"
  obtain r w1 where h: "hop plat net ?u w = (r, w1)" by (cases "hop plat net ?u w")
  from hop_requests[OF h] obtain tl1 where t: "requests w1 = requests w @ (HEAD, ?u) # tl1"
    by auto
  show ?thesis
  proof (cases r)
    case (Inl e)
    with mx h t show ?thesis by (simp add: followRedirects_def followLoop_thrown)
  next
    case (Inr a)
    show ?thesis
    proof (cases a)
      case (Return x)
      with mx h t Inr show ?thesis by (simp add: followRedirects_def followLoop_Return)
    next
      case (Continue nxt)
      from followLoop_requests[of plat net mx nxt 1 w1] obtain new where
        "requests (snd (followLoop plat net mx nxt 1 w1)) = requests w1 @ new" by blast
      with mx h t Inr Continue show ?thesis
        using followLoop_Continue[of 0 mx plat net ?u w nxt w1]
        by (simp add: followRedirects_def)
    qed
  qed
qed

text \<open>
  Claim C7. For an input that starts with neither \<^verbatim>\<open>http://\<close> nor \<^verbatim>\<open>https://\<close>, the
  first probe goes to \<^verbatim>\<open>https://\<close> followed by the input; for an input that starts with
  one of the two, the first probe goes to the input unchanged. (A probe is issued
  when \<open>maxRedirects\<close> is positive, as the default 10 is.) In both cases the loop
  starts at that URL.
\<close>

theorem followRedirects_prepends_https:
  "(\<not> startsWith url (js ''http://'') \<and> \<not> startsWith url (js ''https://'') \<and> 0 < mx \<longrightarrow>
      (\<exists>rest. requests (snd (followRedirects plat net url mx w)) =
               requests w @ (HEAD, js ''https://'' @ url) # rest))
   \<and> ((startsWith url (js ''http://'') \<or> startsWith url (js ''https://'')) \<and> 0 < mx \<longrightarrow>
      (\<exists>rest. requests (snd (followRedirects plat net url mx w)) =
               requests w @ (HEAD, url) # rest))
   \<and> followRedirects plat net url mx w =
       followLoop plat net mx
         (if \<not> startsWith url (js ''http://'') \<and> \<not> startsWith url (js ''https://'')
          then js ''https://'' @ url else url) 0 w"
  using followRedirects_first_request[of mx plat net url w]
  by (auto simp: ensureProtocol_def followRedirects_def)

theorem followRedirects_prepends_https_witness:
  "(\<exists>rest. requests (snd (followRedirects simple_runtime loop_net (js ''example.com'') 10 world0)) =
            requests world0 @ (HEAD, js ''https://example.com'') # rest)
   \<and> (\<exists>rest. requests (snd (followRedirects simple_runtime loop_net (js ''http://example.com'') 10 world0)) =
            requests world0 @ (HEAD, js ''http://example.com'') # rest)"
proof -
  have a: "\<not> startsWith (js ''example.com'') (js ''http://'') \<and>
           \<not> startsWith (js ''example.com'') (js ''https://'') \<and> (0::int) < 10"
    by code_simp
  have b: "(startsWith (js ''http://example.com'') (js ''http://'') \<or>
            startsWith (js ''http://example.com'') (js ''https://'')) \<and> (0::int) < 10"
    by code_simp
  have c: "js ''https://'' @ js ''example.com'' = js ''https://example.com''"
    by (simp add: js_def)
  from a followRedirects_prepends_https[of "js ''example.com''" 10 simple_runtime loop_net world0]
  have x: "\<exists>rest. requests (snd (followRedirects simple_runtime loop_net (js ''example.com'') 10 world0)) =
            requests world0 @ (HEAD, js ''https://'' @ js ''example.com'') # rest"
    by blast
  from b followRedirects_prepends_https[of "js ''http://example.com''" 10 simple_runtime loop_net world0]
  have y: "\<exists>rest. requests (snd (followRedirects simple_runtime loop_net (js ''http://example.com'') 10 world0)) =
            requests world0 @ (HEAD, js ''http://example.com'') # rest"
    by blast
  from x[unfolded c] y show ?thesis by blast
qed

lemma capitalised_scheme_not_startsWith:
  assumes "capitalised_scheme url"
  shows "\<not> startsWith url (js ''http://'') \<and> \<not> startsWith url (js ''https://'')"
proof -
  have l7: "length (js ''http://'') = 7" and l8: "length (js ''https://'') = 8"
    by (simp_all add: js_def)
  have t78: "take 7 (take 8 url) = take 7 url" by simp
  show ?thesis
  proof (intro conjI notI)
    assume s: "startsWith url (js ''http://'')"
    then have e7: "take 7 url = js ''http://''" by (simp add: startsWith_def l7)
    with assms have "map lower (take 8 url) = js ''https://''"
      by (auto simp: capitalised_scheme_def)
    then have "take 7 (map lower (take 8 url)) = take 7 (js ''https://'')" by simp
    then have "map lower (take 7 url) = take 7 (js ''https://'')"
      by (simp add: take_map)
    with e7 show False by (simp add: js_def lower_def)
  next
    assume s: "startsWith url (js ''https://'')"
    then have e8: "take 8 url = js ''https://''" by (simp add: startsWith_def l8)
    with assms have m: "map lower (take 7 url) = js ''http://''"
      by (auto simp: capitalised_scheme_def)
    from e8 have "take 7 (take 8 url) = take 7 (js ''https://'')" by simp
    then have "take 7 url = take 7 (js ''https://'')" by simp
    with m show False by (simp add: js_def lower_def)
  qed
qed

text \<open>
  Claim C10. The scheme check is case-sensitive: an input whose \<^verbatim>\<open>http://\<close> or
  \<^verbatim>\<open>https://\<close> prefix is written with at least one capital letter passes neither
  \<open>startsWith\<close> test, so \<^verbatim>\<open>https://\<close> is prepended and the first probe goes to
  \<^verbatim>\<open>https://\<close> followed by the whole input.
\<close>

theorem capitalised_scheme_still_prefixed:
  "capitalised_scheme url \<longrightarrow>
     \<not> startsWith url (js ''http://'') \<and> \<not> startsWith url (js ''https://'') \<and>
     followRedirects plat net url mx w = followLoop plat net mx (js ''https://'' @ url) 0 w \<and>
     (0 < mx \<longrightarrow>
        (\<exists>rest. requests (snd (followRedirects plat net url mx w)) =
                 requests w @ (HEAD, js ''https://'' @ url) # rest))"
  using followRedirects_first_request[of mx plat net url w]
    capitalised_scheme_not_startsWith[of url]
  by (auto simp: ensureProtocol_def followRedirects_def)

theorem capitalised_scheme_still_prefixed_witness:
  "capitalised_scheme (js ''HTTP://example.com'') \<and>
   (\<exists>rest. requests (snd (followRedirects simple_runtime loop_net (js ''HTTP://example.com'') 10 world0)) =
            requests world0 @ (HEAD, js ''https://HTTP://example.com'') # rest)"
proof -
  have a: "capitalised_scheme (js ''HTTP://example.com'')" by code_simp
  have c: "js ''https://'' @ js ''HTTP://example.com'' = js ''https://HTTP://example.com''"
    by (simp add: js_def)
  have p: "(0::int) < 10" by simp
  from a p capitalised_scheme_still_prefixed[of "js ''HTTP://example.com''" simple_runtime loop_net 10 world0]
  have x: "\<exists>rest. requests (snd (followRedirects simple_runtime loop_net (js ''HTTP://example.com'') 10 world0)) =
            requests world0 @ (HEAD, js ''https://'' @ js ''HTTP://example.com'') # rest"
    by blast
  from a x[unfolded c] show ?thesis by blast
qed

section \<open>The HEAD to GET fallback\<close>

lemma hop_head_rejected:
  "fetch net u HEAD w = (Inl e, w1) \<Longrightarrow> hop plat net u w = attempt plat net GET u w1"
  by (simp add: hop_def attempt_rejected)

text \<open>
  Claim C5. At any hop (after \<open>n < maxRedirects\<close> redirects), when the HEAD request is
  rejected, the iteration is exactly one GET request to the same URL: the requests
  of the iteration are that HEAD and that GET. When the GET is rejected as well,
  \<open>followRedirects\<close> fails with \<open>TransportFailure\<close> carrying what the GET threw, its
  message is \<^verbatim>\<open>Failed to resolve URL: \<close> followed by the cause's message, and the world
  it ends in is the one right after the GET: no further request is made.
\<close>

theorem head_failure_retries_once_with_get:
  "redirect_chain plat net n (ensureProtocol url) w = Some (u, w1) \<and> int n < mx \<and>
   fetch net u HEAD w1 = (Inl e1, w2) \<longrightarrow>
     hop plat net u w1 = attempt plat net GET u w2 \<and>
     requests (snd (hop plat net u w1)) = requests w1 @ [(HEAD, u), (GET, u)] \<and>
     (fetch net u GET w2 = (Inl e2, w3) \<longrightarrow>
        followRedirects plat net url mx w = (Inl (TransportFailure e2), w3) \<and>
        requests w3 = requests w1 @ [(HEAD, u), (GET, u)] \<and>
        message (TransportFailure e2) =
          js ''Failed to resolve URL: '' @
            (case e2 of Error m \<Rightarrow> m | NotError \<Rightarrow> js ''Unknown error''))"
proof (intro impI)
  assume a: "redirect_chain plat net n (ensureProtocol url) w = Some (u, w1) \<and> int n < mx \<and>
   fetch net u HEAD w1 = (Inl e1, w2)"
  then have h: "hop plat net u w1 = attempt plat net GET u w2"
    by (simp add: hop_head_rejected)
  from a have r2: "requests w2 = requests w1 @ [(HEAD, u)]"
    by (auto dest: fetch_requests)
  obtain r w3' where g: "attempt plat net GET u w2 = (r, w3')"
    by (cases "attempt plat net GET u w2")
  from attempt_requests[OF g] r2 h g
  have rq: "requests (snd (hop plat net u w1)) = requests w1 @ [(HEAD, u), (GET, u)]"
    by simp
  have fail: "fetch net u GET w2 = (Inl e2, w3) \<longrightarrow>
        followRedirects plat net url mx w = (Inl (TransportFailure e2), w3) \<and>
        requests w3 = requests w1 @ [(HEAD, u), (GET, u)] \<and>
        message (TransportFailure e2) =
          js ''Failed to resolve URL: '' @
            (case e2 of Error m \<Rightarrow> m | NotError \<Rightarrow> js ''Unknown error'')"
  proof
    assume f: "fetch net u GET w2 = (Inl e2, w3)"
    then have "hop plat net u w1 = (Inl e2, w3)"
      using h by (simp add: attempt_rejected)
    then have "followRedirects plat net url mx w = (Inl (TransportFailure e2), w3)"
      using a followRedirects_chain[of plat net n url w u w1 mx]
      by (simp add: followLoop_thrown)
    moreover have "requests w3 = requests w1 @ [(HEAD, u), (GET, u)]"
      using fetch_requests[OF f] r2 by simp
    ultimately show "followRedirects plat net url mx w = (Inl (TransportFailure e2), w3) \<and>
        requests w3 = requests w1 @ [(HEAD, u), (GET, u)] \<and>
        message (TransportFailure e2) =
          js ''Failed to resolve URL: '' @
            (case e2 of Error m \<Rightarrow> m | NotError \<Rightarrow> js ''Unknown error'')"
      by (simp add: message_def)
  qed
  from h rq fail show "hop plat net u w1 = attempt plat net GET u w2 \<and>
     requests (snd (hop plat net u w1)) = requests w1 @ [(HEAD, u), (GET, u)] \<and>
     (fetch net u GET w2 = (Inl e2, w3) \<longrightarrow>
        followRedirects plat net url mx w = (Inl (TransportFailure e2), w3) \<and>
        requests w3 = requests w1 @ [(HEAD, u), (GET, u)] \<and>
        message (TransportFailure e2) =
          js ''Failed to resolve URL: '' @
            (case e2 of Error m \<Rightarrow> m | NotError \<Rightarrow> js ''Unknown error''))"
    by blast
qed

theorem head_failure_retries_once_with_get_witness:
  "followRedirects simple_runtime (table_net []) (js ''https://example.com'') 10 world0 =
     (Inl (TransportFailure (Error (js ''fetch failed''))),
      \<lparr>net_state = (),
         requests = [(HEAD, js ''https://example.com''), (GET, js ''https://example.com'')]\<rparr>)
   \<and> message (TransportFailure (Error (js ''fetch failed''))) =
       js ''Failed to resolve URL: fetch failed''"
proof -
  let ?u = "js ''https://example.com''"
  let ?w2 = "\<lparr>net_state = (), requests = [(HEAD, ?u)]\<rparr>"
  let ?w3 = "\<lparr>net_state = (), requests = [(HEAD, ?u), (GET, ?u)]\<rparr>"
  have a: "redirect_chain simple_runtime (table_net []) 0 (ensureProtocol ?u) world0 = Some (?u, world0) \<and>
           int 0 < 10 \<and> fetch (table_net []) ?u HEAD world0 = (Inl (Error (js ''fetch failed'')), ?w2)"
    by code_simp
  have b: "fetch (table_net []) ?u GET ?w2 = (Inl (Error (js ''fetch failed'')), ?w3)"
    by code_simp
  have c: "js ''Failed to resolve URL: '' @ js ''fetch failed'' = js ''Failed to resolve URL: fetch failed''"
    by (simp add: js_def)
  from a b
    head_failure_retries_once_with_get
      [where plat = simple_runtime and net = "table_net []" and url = ?u and mx = 10 and w = world0
         and n = 0 and u = ?u and ?w1.0 = world0 and ?e1.0 = "Error (js ''fetch failed'')"
         and ?w2.0 = ?w2 and ?e2.0 = "Error (js ''fetch failed'')" and ?w3.0 = ?w3]
  have "followRedirects simple_runtime (table_net []) ?u 10 world0 =
          (Inl (TransportFailure (Error (js ''fetch failed''))), ?w3)
        \<and> message (TransportFailure (Error (js ''fetch failed''))) =
            js ''Failed to resolve URL: '' @ js ''fetch failed''"
    by simp
  then show ?thesis unfolding c by blast
qed

section \<open>The Location header\<close>

text \<open>
  Claim C2 at the \<^verbatim>\<open>Location\<close> value \<^verbatim>\<open>http-docs/page\<close>, received at
  \<^verbatim>\<open>https://host/a/old\<close>. The value has no scheme and does not start with \<^verbatim>\<open>/\<close>: it
  is a relative path, and resolved against the current URL it is
  \<^verbatim>\<open>https://host/a/http-docs/page\<close>, where the loop would end with that URL as the
  result. The code's test \<^verbatim>\<open>location.startsWith('http')\<close> takes the value for an
  absolute URL, the loop continues at \<^verbatim>\<open>http-docs/page\<close> itself, the HEAD and the GET
  there are rejected, and \<open>followRedirects\<close> fails.
\<close>

theorem location_relative_http_taken_as_absolute:
  "\<not> has_scheme (js ''http-docs/page'') \<and>
   \<not> startsWith (js ''http-docs/page'') (js ''/'') \<and>
   map_sum id href (url_new_base simple_runtime (js ''http-docs/page'') (js ''https://host/a/old'')) =
     Inr (js ''https://host/a/http-docs/page'') \<and>
   followLoop simple_runtime (parsing_net relative_http_table) 10
       (js ''https://host/a/http-docs/page'') 1
       \<lparr>net_state = (), requests = [(HEAD, js ''https://host/a/old'')]\<rparr> =
     (Inr (js ''https://host/a/http-docs/page''),
      \<lparr>net_state = (),
         requests = [(HEAD, js ''https://host/a/old''), (HEAD, js ''https://host/a/http-docs/page'')]\<rparr>) \<and>
   on_response simple_runtime (js ''https://host/a/old'')
     \<lparr>status = 302, location = Some (js ''http-docs/page'')\<rparr> =
     Inr (Continue (js ''http-docs/page'')) \<and>
   followRedirects simple_runtime (parsing_net relative_http_table) (js ''https://host/a/old'') 10 world0 =
     (Inl (TransportFailure (Error (js ''Failed to parse URL from http-docs/page''))),
      \<lparr>net_state = (),
         requests = [(HEAD, js ''https://host/a/old''), (HEAD, js ''http-docs/page''),
                     (GET, js ''http-docs/page'')]\<rparr>) \<and>
   message (TransportFailure (Error (js ''Failed to parse URL from http-docs/page''))) =
     js ''Failed to resolve URL: Failed to parse URL from http-docs/page''"
  by code_simp

section \<open>The resolve route\<close>

text \<open>
  Claim C4. When the request's URL passes validation and resolves to \<open>r\<close>, and
  \<open>checkUrlExists\<close> holds for \<open>r\<close> in the store, the answer is the 409 with the message
  and \<open>r\<close>, which is not the success answer, and the store after the request is the
  store before it: the same records and the same identifier counter.
\<close>

theorem resolve_url_duplicate_is_conflict:
  "zod_url plat url \<and> followRedirects plat net url default_maxRedirects w = (Inr r, w') \<and>
   checkUrlExists storage r \<longrightarrow>
     post_resolve_url plat net now (Some url) (storage, w) =
       (Conflict (js ''URL already exists in the list'') r, storage, w') \<and>
     statusCode (fst (post_resolve_url plat net now (Some url) (storage, w))) = 409 \<and>
     (\<forall>x. fst (post_resolve_url plat net now (Some url) (storage, w)) \<noteq> Json x) \<and>
     resolvedUrls (fst (snd (post_resolve_url plat net now (Some url) (storage, w)))) =
       resolvedUrls storage \<and>
     currentId (fst (snd (post_resolve_url plat net now (Some url) (storage, w)))) =
       currentId storage"
  by (simp add: post_resolve_url_def)

theorem resolve_url_duplicate_is_conflict_witness:
  "post_resolve_url simple_runtime (table_net chain_table) 2000 (Some (js ''https://host/a/old''))
     (snd (run new_MemStorage [ResolveAndStore (js ''https://host/path'') (js ''https://host/path'') 1000]),
      world0) =
     (Conflict (js ''URL already exists in the list'') (js ''https://host/path''),
      snd (run new_MemStorage [ResolveAndStore (js ''https://host/path'') (js ''https://host/path'') 1000]),
      \<lparr>net_state = (),
         requests = [(HEAD, js ''https://host/a/old''), (HEAD, js ''https://host/a/other/path''),
                     (HEAD, js ''https://host/path'')]\<rparr>)
   \<and> currentId (snd (run new_MemStorage [ResolveAndStore (js ''https://host/path'') (js ''https://host/path'') 1000])) = 2"
proof -
  let ?st = "snd (run new_MemStorage [ResolveAndStore (js ''https://host/path'') (js ''https://host/path'') 1000])"
  let ?w' = "\<lparr>net_state = (),
         requests = [(HEAD, js ''https://host/a/old''), (HEAD, js ''https://host/a/other/path''),
                     (HEAD, js ''https://host/path'')]\<rparr>"
  have a: "zod_url simple_runtime (js ''https://host/a/old'') \<and>
           followRedirects simple_runtime (table_net chain_table) (js ''https://host/a/old'')
             default_maxRedirects world0 = (Inr (js ''https://host/path''), ?w') \<and>
           checkUrlExists ?st (js ''https://host/path'')"
    by code_simp
  have b: "currentId ?st = 2" by code_simp
  from a b resolve_url_duplicate_is_conflict
      [where plat = simple_runtime and net = "table_net chain_table" and url = "js ''https://host/a/old''"
         and w = world0 and r = "js ''https://host/path''" and w' = ?w' and storage = ?st and now = 2000]
  show ?thesis by blast
qed

section \<open>The store\<close>

lemma mset_insert_cmp: "mset (insert_cmp cmp x ys) = add_mset x (mset ys)"
  by (induction ys) auto

lemma mset_Array_sort: "mset (Array_sort cmp xs) = mset xs"
  by (induction xs) (auto simp: Array_sort_def mset_insert_cmp)

lemma set_Array_sort: "set (Array_sort cmp xs) = set xs"
  using mset_Array_sort[of cmp xs] by (metis set_mset_mset)

lemma set_insert_cmp: "set (insert_cmp cmp x ys) = insert x (set ys)"
  using mset_insert_cmp[of cmp x ys] by (metis set_mset_mset set_mset_add_mset_insert)

lemma insert_cmp_recency:
  "sorted_wrt recency ys \<Longrightarrow> \<forall>y \<in> set ys. id' x < id' y \<Longrightarrow>
     sorted_wrt recency (insert_cmp (\<lambda>a b. timestamp b - timestamp a) x ys)"
proof (induction ys)
  case Nil
  then show ?case by simp
next
  case (Cons y ys)
  show ?case
  proof (cases "timestamp y - timestamp x \<le> 0")
    case True
    with Cons.prems show ?thesis by (auto simp: recency_def)
  next
    case False
    with Cons show ?thesis by (auto simp: recency_def set_insert_cmp)
  qed
qed

lemma Array_sort_recency:
  "sorted_wrt (\<lambda>a b. id' a < id' b) xs \<Longrightarrow>
     sorted_wrt recency (Array_sort (\<lambda>a b. timestamp b - timestamp a) xs)"
proof (induction xs)
  case Nil
  then show ?case by (simp add: Array_sort_def)
next
  case (Cons x xs)
  then have "sorted_wrt recency (Array_sort (\<lambda>a b. timestamp b - timestamp a) xs)" by simp
  moreover from Cons.prems
  have "\<forall>y \<in> set (Array_sort (\<lambda>a b. timestamp b - timestamp a) xs). id' x < id' y"
    by (simp add: set_Array_sort)
  ultimately have "sorted_wrt recency
      (insert_cmp (\<lambda>a b. timestamp b - timestamp a) x (Array_sort (\<lambda>a b. timestamp b - timestamp a) xs))"
    by (rule insert_cmp_recency)
  then show ?case by (simp add: Array_sort_def)
qed

lemma insert_cmp_desc:
  "sorted_wrt (\<lambda>a b. timestamp b \<le> timestamp a) ys \<Longrightarrow>
     sorted_wrt (\<lambda>a b. timestamp b \<le> timestamp a) (insert_cmp (\<lambda>a b. timestamp b - timestamp a) x ys)"
  by (induction ys) (auto simp: set_insert_cmp)

lemma Array_sort_desc:
  "sorted_wrt (\<lambda>a b. timestamp b \<le> timestamp a) (Array_sort (\<lambda>a b. timestamp b - timestamp a) xs)"
  by (induction xs) (auto simp: Array_sort_def insert_cmp_desc simp del: insert_cmp.simps)

lemma Map_set_fresh: "k \<notin> fst ` set m \<Longrightarrow> Map_set m k v = m @ [(k, v)]"
  by (induction m) auto

lemma store_inv_new: "store_inv new_MemStorage"
  by (simp add: store_inv_def new_MemStorage_def)

lemma store_inv_clear: "store_inv this \<Longrightarrow> store_inv (clearAllResolvedUrls this)"
  by (simp add: store_inv_def clearAllResolvedUrls_def)

lemma resolveAndStoreUrl_appends:
  assumes "store_inv this"
  shows "resolveAndStoreUrl this a b now =
     (\<lparr>id' = currentId this, originalUrl = a, resolvedUrl = b, timestamp = now\<rparr>,
      \<lparr>resolvedUrls = resolvedUrls this @
         [(currentId this, \<lparr>id' = currentId this, originalUrl = a, resolvedUrl = b, timestamp = now\<rparr>)],
       currentId = currentId this + 1\<rparr>)"
proof -
  from assms have "currentId this \<notin> fst ` set (resolvedUrls this)"
    by (auto simp: store_inv_def list_all_iff)
  then show ?thesis by (simp add: resolveAndStoreUrl_def Map_set_fresh Let_def)
qed

lemma store_inv_insert:
  assumes "store_inv this"
  shows "store_inv (snd (resolveAndStoreUrl this a b now))"
  using assms unfolding resolveAndStoreUrl_appends[OF assms]
  by (auto simp: store_inv_def sorted_wrt_append list_all_iff)

lemma run_facts:
  "store_inv this \<Longrightarrow>
     store_inv (snd (run this ops)) \<and>
     sorted_wrt (<) (map id' (fst (run this ops))) \<and>
     (\<forall>e \<in> set (fst (run this ops)). currentId this \<le> id' e \<and> id' e < currentId (snd (run this ops))) \<and>
     currentId this \<le> currentId (snd (run this ops))"
proof (induction this ops rule: run.induct)
  case (1 this)
  then show ?case by simp
next
  case (2 this original resolved now ops)
  let ?e = "\<lparr>id' = currentId this, originalUrl = original, resolvedUrl = resolved, timestamp = now\<rparr>"
  obtain s where r: "resolveAndStoreUrl this original resolved now = (?e, s)"
    and c: "currentId s = currentId this + 1"
    using resolveAndStoreUrl_appends[OF "2.prems"] by simp
  have inv: "store_inv s"
    using store_inv_insert[OF "2.prems", of original resolved now] r by simp
  from "2.IH"[OF r[symmetric] inv]
  have ih: "store_inv (snd (run s ops))"
    "sorted_wrt (<) (map id' (fst (run s ops)))"
    "\<forall>e \<in> set (fst (run s ops)). currentId s \<le> id' e \<and> id' e < currentId (snd (run s ops))"
    "currentId s \<le> currentId (snd (run s ops))"
    by simp_all
  have run_eq: "run this (ResolveAndStore original resolved now # ops) =
      (?e # fst (run s ops), snd (run s ops))"
    by (simp add: r split: prod.splits)
  show ?case unfolding run_eq using ih c by auto
next
  case (3 this ops)
  have "currentId (clearAllResolvedUrls this) = currentId this"
    by (simp add: clearAllResolvedUrls_def)
  with "3.IH"[OF store_inv_clear[OF "3.prems"]] show ?case by simp
qed

lemma values_sorted_by_id:
  "store_inv this \<Longrightarrow> sorted_wrt (\<lambda>a b. id' a < id' b) (Map_values (resolvedUrls this))"
proof -
  assume "store_inv this"
  then have s: "sorted_wrt (<) (map fst (resolvedUrls this))"
    and e: "\<forall>kv \<in> set (resolvedUrls this). fst kv = id' (snd kv)"
    by (auto simp: store_inv_def list_all_iff)
  from e have "map fst (resolvedUrls this) = map id' (map snd (resolvedUrls this))"
    by simp
  with s show ?thesis by (simp add: Map_values_def sorted_wrt_map)
qed


text \<open>
  Claim C3, as the code has it. For every store that a sequence of operations
  produces from a new store, \<open>getAllResolvedUrls\<close> returns exactly the current records,
  ordered by timestamp, most recent first; two records with equal timestamps keep
  their insertion order, so the one with the lower identifier comes first.
\<close>

theorem getAllResolvedUrls_most_recent_first:
  "mset (getAllResolvedUrls (snd (run new_MemStorage ops))) =
     mset (Map_values (resolvedUrls (snd (run new_MemStorage ops)))) \<and>
   sorted_wrt (\<lambda>a b. timestamp b \<le> timestamp a)
     (getAllResolvedUrls (snd (run new_MemStorage ops))) \<and>
   sorted_wrt (\<lambda>a b. timestamp a = timestamp b \<longrightarrow> id' a < id' b)
     (getAllResolvedUrls (snd (run new_MemStorage ops)))"
proof -
  let ?st = "snd (run new_MemStorage ops)"
  have inv: "store_inv ?st"
    using run_facts[OF store_inv_new, of ops] by simp
  have "sorted_wrt recency (getAllResolvedUrls ?st)"
    unfolding getAllResolvedUrls_def
    by (rule Array_sort_recency) (rule values_sorted_by_id[OF inv])
  then have "sorted_wrt (\<lambda>a b. timestamp a = timestamp b \<longrightarrow> id' a < id' b)
     (getAllResolvedUrls ?st)"
    by (rule sorted_wrt_mono_rel[rotated]) (simp add: recency_def)
  then show ?thesis
    by (simp add: getAllResolvedUrls_def mset_Array_sort Array_sort_desc)
qed

theorem getAllResolvedUrls_most_recent_first_witness:
  "getAllResolvedUrls (snd (run new_MemStorage
      [ResolveAndStore (js ''a'') (js ''x'') 5, ResolveAndStore (js ''b'') (js ''y'') 5,
       ResolveAndStore (js ''c'') (js ''z'') 7])) =
     [\<lparr>id' = 3, originalUrl = js ''c'', resolvedUrl = js ''z'', timestamp = 7\<rparr>,
      \<lparr>id' = 1, originalUrl = js ''a'', resolvedUrl = js ''x'', timestamp = 5\<rparr>,
      \<lparr>id' = 2, originalUrl = js ''b'', resolvedUrl = js ''y'', timestamp = 5\<rparr>]
   \<and> sorted_wrt (\<lambda>a b. timestamp a = timestamp b \<longrightarrow> id' a < id' b)
     [\<lparr>id' = 3, originalUrl = js ''c'', resolvedUrl = js ''z'', timestamp = 7\<rparr>,
      \<lparr>id' = 1, originalUrl = js ''a'', resolvedUrl = js ''x'', timestamp = 5\<rparr>,
      \<lparr>id' = 2, originalUrl = js ''b'', resolvedUrl = js ''y'', timestamp = 5\<rparr>]"
proof -
  have e: "getAllResolvedUrls (snd (run new_MemStorage
      [ResolveAndStore (js ''a'') (js ''x'') 5, ResolveAndStore (js ''b'') (js ''y'') 5,
       ResolveAndStore (js ''c'') (js ''z'') 7])) =
     [\<lparr>id' = 3, originalUrl = js ''c'', resolvedUrl = js ''z'', timestamp = 7\<rparr>,
      \<lparr>id' = 1, originalUrl = js ''a'', resolvedUrl = js ''x'', timestamp = 5\<rparr>,
      \<lparr>id' = 2, originalUrl = js ''b'', resolvedUrl = js ''y'', timestamp = 5\<rparr>]"
    by code_simp
  from getAllResolvedUrls_most_recent_first
      [of "[ResolveAndStore (js ''a'') (js ''x'') 5, ResolveAndStore (js ''b'') (js ''y'') 5,
            ResolveAndStore (js ''c'') (js ''z'') 7]"]
  show ?thesis unfolding e by blast
qed

text \<open>
  Claim C3 as stated fails on a tie: two records made at the same time are listed
  with the lower identifier first.
\<close>

theorem getAllResolvedUrls_tie_counterexample:
  "getAllResolvedUrls (snd (run new_MemStorage
      [ResolveAndStore (js ''a'') (js ''x'') 5, ResolveAndStore (js ''b'') (js ''y'') 5])) =
     [\<lparr>id' = 1, originalUrl = js ''a'', resolvedUrl = js ''x'', timestamp = 5\<rparr>,
      \<lparr>id' = 2, originalUrl = js ''b'', resolvedUrl = js ''y'', timestamp = 5\<rparr>]"
  by code_simp

text \<open>
  Claim C8. Over every sequence of \<open>resolveAndStoreUrl\<close> and \<open>clearAllResolvedUrls\<close>
  on a new store, the identifiers handed out are strictly increasing, hence never
  repeated; \<open>clearAllResolvedUrls\<close> leaves the counter as it is; and a record made
  after a clear gets an identifier above every identifier handed out before.
\<close>

theorem identifiers_strictly_increase:
  "sorted_wrt (<) (map id' (fst (run new_MemStorage ops))) \<and>
   distinct (map id' (fst (run new_MemStorage ops))) \<and>
   currentId (clearAllResolvedUrls this) = currentId this \<and>
   (\<forall>e \<in> set (fst (run new_MemStorage ops)).
      id' e < id' (fst (resolveAndStoreUrl
                         (clearAllResolvedUrls (snd (run new_MemStorage ops))) a b now)))"
proof -
  from run_facts[OF store_inv_new, of ops]
  have s: "sorted_wrt (<) (map id' (fst (run new_MemStorage ops)))"
    and b: "\<forall>e \<in> set (fst (run new_MemStorage ops)). id' e < currentId (snd (run new_MemStorage ops))"
    by simp_all
  from s have "distinct (map id' (fst (run new_MemStorage ops)))"
    by (simp add: strict_sorted_iff)
  with s b show ?thesis
    by (simp add: clearAllResolvedUrls_def resolveAndStoreUrl_def Let_def)
qed

theorem identifiers_strictly_increase_witness:
  "map id' (fst (run new_MemStorage
      [ResolveAndStore (js ''a'') (js ''x'') 5, ResolveAndStore (js ''b'') (js ''y'') 6, ClearAll,
       ResolveAndStore (js ''c'') (js ''z'') 7])) = [1, 2, 3]
   \<and> id' (fst (resolveAndStoreUrl (clearAllResolvedUrls (snd (run new_MemStorage
      [ResolveAndStore (js ''a'') (js ''x'') 5, ResolveAndStore (js ''b'') (js ''y'') 6, ClearAll,
       ResolveAndStore (js ''c'') (js ''z'') 7]))) (js ''d'') (js ''w'') 8)) = 4
   \<and> sorted_wrt (<) [1, 2, 3 :: int]"
proof -
  have e: "map id' (fst (run new_MemStorage
      [ResolveAndStore (js ''a'') (js ''x'') 5, ResolveAndStore (js ''b'') (js ''y'') 6, ClearAll,
       ResolveAndStore (js ''c'') (js ''z'') 7])) = [1, 2, 3]"
    by code_simp
  have f: "id' (fst (resolveAndStoreUrl (clearAllResolvedUrls (snd (run new_MemStorage
      [ResolveAndStore (js ''a'') (js ''x'') 5, ResolveAndStore (js ''b'') (js ''y'') 6, ClearAll,
       ResolveAndStore (js ''c'') (js ''z'') 7]))) (js ''d'') (js ''w'') 8)) = 4"
    by code_simp
  from identifiers_strictly_increase
      [of "[ResolveAndStore (js ''a'') (js ''x'') 5, ResolveAndStore (js ''b'') (js ''y'') 6, ClearAll,
            ResolveAndStore (js ''c'') (js ''z'') 7]"]
  have "sorted_wrt (<) [1, 2, 3 :: int]" unfolding e by blast
  with e f show ?thesis by blast
qed

text \<open>
  Claim C9. \<open>checkUrlExists\<close> holds for a string exactly when some current record's
  \<open>resolvedUrl\<close> is that string, code unit for code unit; nothing is normalised, so a
  string with one more trailing slash, or with a letter in the other case, is not
  found.
\<close>

theorem checkUrlExists_exact_match:
  "checkUrlExists this s \<longleftrightarrow>
     (\<exists>r \<in> set (Map_values (resolvedUrls this)). resolvedUrl r = s)"
  by (simp add: checkUrlExists_def list_ex_iff)

theorem checkUrlExists_exact_match_witness:
  "checkUrlExists (snd (run new_MemStorage
      [ResolveAndStore (js ''example.com/Path'') (js ''https://example.com/Path'') 5]))
     (js ''https://example.com/Path'')
   \<and> \<not> checkUrlExists (snd (run new_MemStorage
      [ResolveAndStore (js ''example.com/Path'') (js ''https://example.com/Path'') 5]))
     (js ''https://example.com/Path/'')
   \<and> \<not> checkUrlExists (snd (run new_MemStorage
      [ResolveAndStore (js ''example.com/Path'') (js ''https://example.com/Path'') 5]))
     (js ''https://example.com/path'')"
proof -
  let ?st = "snd (run new_MemStorage
      [ResolveAndStore (js ''example.com/Path'') (js ''https://example.com/Path'') 5])"
  have v: "Map_values (resolvedUrls ?st) =
     [\<lparr>id' = 1, originalUrl = js ''example.com/Path'', resolvedUrl = js ''https://example.com/Path'',
        timestamp = 5\<rparr>]"
    by code_simp
  have d: "js ''https://example.com/Path'' \<noteq> js ''https://example.com/Path/'' \<and>
           js ''https://example.com/Path'' \<noteq> js ''https://example.com/path''"
    by code_simp
  from v d
    checkUrlExists_exact_match[of ?st "js ''https://example.com/Path''"]
    checkUrlExists_exact_match[of ?st "js ''https://example.com/Path/''"]
    checkUrlExists_exact_match[of ?st "js ''https://example.com/path''"]
  show ?thesis by simp
qed

section \<open>The line-set transform\<close>

lemma remdups_drop_later: "x \<in> set B \<Longrightarrow> remdups (A @ x # B) = remdups (A @ B)"
  by (induction A) auto

lemma foldl_Set_add:
  "distinct acc \<Longrightarrow> foldl Set_add acc xs = first_occurrences (acc @ xs)"
proof (induction xs arbitrary: acc)
  case Nil
  then show ?case by (simp add: first_occurrences_def distinct_remdups_id)
next
  case (Cons x xs)
  show ?case
  proof (cases "x \<in> set acc")
    case True
    then have "remdups (rev xs @ x # rev acc) = remdups (rev xs @ rev acc)"
      by (intro remdups_drop_later) simp
    with True Cons show ?thesis by (simp add: Set_add_def first_occurrences_def)
  next
    case False
    with Cons.prems have "distinct (acc @ [x])" by simp
    from Cons.IH[OF this] False show ?thesis by (simp add: Set_add_def)
  qed
qed

lemma Array_from_Set_first_occurrences: "Array_from_Set xs = first_occurrences xs"
  using foldl_Set_add[of "[]" xs] by (simp add: Array_from_Set_def)

lemma remdups_snoc: "remdups (A @ [x]) = remdups (filter (\<lambda>y. y \<noteq> x) A) @ [x]"
  by (induction A) auto

lemma first_occurrences_Cons:
  "first_occurrences (x # xs) = x # first_occurrences (filter (\<lambda>y. y \<noteq> x) xs)"
  by (simp add: first_occurrences_def remdups_snoc rev_filter)

lemma foldl_push: "foldl (\<lambda>acc f. acc @ g f) a fs = a @ concat (map g fs)"
  by (induction fs arbitrary: a) auto

lemma post_merge_files_line_set: "post_merge_files (Some blobs) = Json (line_set blobs)"
proof -
  have "(\<lambda>allLines fileContent.
           allLines @ filter (\<lambda>line. length line > 0) (map trim (split_nl fileContent))) =
        (\<lambda>allLines fileContent. allLines @ blob_lines fileContent)"
    by (simp add: blob_lines_def)
  then show ?thesis
    by (simp add: post_merge_files_def line_set_def Let_def foldl_push
        Array_from_Set_first_occurrences)
qed

lemma post_analyze_file_line_set:
  "content \<noteq> [] \<Longrightarrow> post_analyze_file (Some content) = Json (line_set [content])"
  by (simp add: post_analyze_file_def line_set_def Let_def blob_lines_def
      Array_from_Set_first_occurrences)

text \<open>
  Claim C6, as the code has it. \<^verbatim>\<open>/api/merge-files\<close> on every list of blobs, and
  \<^verbatim>\<open>/api/analyze-file\<close> on every blob but the empty one, answer with the line-set
  transform of their input (one blob for \<^verbatim>\<open>analyze-file\<close>): \<open>totalLines\<close> counts the
  trimmed non-empty lines of all blobs, \<open>urls\<close> lists each of them once, in the order
  of first occurrence, \<open>uniqueLines\<close> is the length of \<open>urls\<close>, and \<open>duplicateLines\<close> is
  \<open>totalLines - uniqueLines\<close>. The blob of the example gives 5, 3, 2 and
  \<^verbatim>\<open>["a","b","c"]\<close>.
\<close>

theorem line_set_transform:
  "post_merge_files (Some blobs) = Json (line_set blobs) \<and>
   (content \<noteq> [] \<longrightarrow> post_analyze_file (Some content) = post_merge_files (Some [content])) \<and>
   totalLines (line_set blobs) = int (length (concat (map blob_lines blobs))) \<and>
   distinct (urls (line_set blobs)) \<and>
   set (urls (line_set blobs)) = set (concat (map blob_lines blobs)) \<and>
   first_occurrences [] = ([] :: jsstring list) \<and>
   first_occurrences (l # ls) = l # first_occurrences (filter (\<lambda>y. y \<noteq> l) ls) \<and>
   urls (line_set blobs) = first_occurrences (concat (map blob_lines blobs)) \<and>
   uniqueLines (line_set blobs) = int (length (urls (line_set blobs))) \<and>
   duplicateLines (line_set blobs) = totalLines (line_set blobs) - uniqueLines (line_set blobs) \<and>
   post_analyze_file (Some (js ''a\<newline>\<newline>a\<newline>b\<newline>  b  \<newline>c'')) =
     Json \<lparr>totalLines = 5, uniqueLines = 3, duplicateLines = 2,
           urls = [js ''a'', js ''b'', js ''c'']\<rparr>"
proof -
  have ex: "post_analyze_file (Some (js ''a\<newline>\<newline>a\<newline>b\<newline>  b  \<newline>c'')) =
     Json \<lparr>totalLines = 5, uniqueLines = 3, duplicateLines = 2,
           urls = [js ''a'', js ''b'', js ''c'']\<rparr>"
    by code_simp
  have an: "content \<noteq> [] \<longrightarrow> post_analyze_file (Some content) = post_merge_files (Some [content])"
    by (simp add: post_analyze_file_line_set post_merge_files_line_set)
  have fo: "first_occurrences (l # ls) = l # first_occurrences (filter (\<lambda>y. y \<noteq> l) ls)"
    by (rule first_occurrences_Cons)
  show ?thesis
    using ex an fo
    by (simp add: post_merge_files_line_set line_set_def Let_def first_occurrences_def)
qed

theorem line_set_transform_witness:
  "post_analyze_file (Some (js ''a\<newline>b'')) = post_merge_files (Some [js ''a\<newline>b'']) \<and>
   post_merge_files (Some [js ''a\<newline>b'', js ''b\<newline>c'']) =
     Json \<lparr>totalLines = 4, uniqueLines = 3, duplicateLines = 1,
           urls = [js ''a'', js ''b'', js ''c'']\<rparr>"
proof -
  have a: "js ''a\<newline>b'' \<noteq> []" by code_simp
  have b: "line_set [js ''a\<newline>b'', js ''b\<newline>c''] =
     \<lparr>totalLines = 4, uniqueLines = 3, duplicateLines = 1,
       urls = [js ''a'', js ''b'', js ''c'']\<rparr>"
    by code_simp
  note t = line_set_transform[of "[js ''a\<newline>b'', js ''b\<newline>c'']" "js ''a\<newline>b''" "[]" "[]"]
  from a t have x: "post_analyze_file (Some (js ''a\<newline>b'')) = post_merge_files (Some [js ''a\<newline>b''])"
    by blast
  from t have "post_merge_files (Some [js ''a\<newline>b'', js ''b\<newline>c'']) =
      Json (line_set [js ''a\<newline>b'', js ''b\<newline>c''])"
    by blast
  with b x show ?thesis by simp
qed

text \<open>
  Claim C6 as stated fails on the empty blob: \<^verbatim>\<open>/api/analyze-file\<close> rejects it with
  status 400, where \<^verbatim>\<open>/api/merge-files\<close> answers with the transform of the one-blob
  list.
\<close>

theorem analyze_file_empty_blob_counterexample:
  "post_analyze_file (Some []) = Failure 400 (js ''File content is required'') \<and>
   post_merge_files (Some [[]]) =
     Json \<lparr>totalLines = 0, uniqueLines = 0, duplicateLines = 0, urls = []\<rparr>"
  by code_simp

end
